theory Spec2Isabelle
  imports Main
begin

section \<open>Python values used by the dashboard\<close>

text \<open>
  The development embeds \<^verbatim>\<open>CS_Valve_rankings.py\<close>. A Python \<^verbatim>\<open>str\<close> is a
  sequence of code points; here a text is a \<^typ>\<open>string\<close> whose characters are the code
  points below 256, one \<^typ>\<open>char\<close> per code point. The character classes below are the
  ones Python 3 uses on that range. Exceptions are values: a function that can raise
  returns \<open>error + 'a\<close>, with the exception on the left. \<open>UIError\<close> stands for an
  exception raised inside the user interface library, with its message.
\<close>

datatype error =
    ValueError string
  | IndexError string
  | KeyError string
  | UIError string

text \<open>\<^verbatim>\<open>str.isspace\<close> on one character: what \<^verbatim>\<open>str.strip()\<close> removes.\<close>

definition isspace :: "char \<Rightarrow> bool" where
  "isspace c =
     (let n = (of_char c :: nat)
      in (9 \<le> n \<and> n \<le> 13) \<or> (28 \<le> n \<and> n \<le> 32) \<or> n = 133 \<or> n = 160)"

text \<open>The class \<^verbatim>\<open>\d\<close> of the \<^verbatim>\<open>re\<close> module on a \<^verbatim>\<open>str\<close> pattern.\<close>

definition re_digit :: "char \<Rightarrow> bool" where
  "re_digit c = (let n = (of_char c :: nat) in 48 \<le> n \<and> n \<le> 57)"

text \<open>The class \<^verbatim>\<open>\w\<close>: alphanumeric code points and the underscore.\<close>

definition re_word :: "char \<Rightarrow> bool" where
  "re_word c =
     (let n = (of_char c :: nat)
      in (48 \<le> n \<and> n \<le> 57) \<or> (65 \<le> n \<and> n \<le> 90) \<or> n = 95 \<or> (97 \<le> n \<and> n \<le> 122)
         \<or> n = 170 \<or> n = 178 \<or> n = 179 \<or> n = 181 \<or> n = 185 \<or> n = 186
         \<or> (188 \<le> n \<and> n \<le> 190) \<or> (192 \<le> n \<and> n \<le> 214) \<or> (216 \<le> n \<and> n \<le> 246)
         \<or> (248 \<le> n \<and> n \<le> 255))"

text \<open>\<^verbatim>\<open>s.strip()\<close>: whitespace removed at both ends.\<close>

definition strip :: "string \<Rightarrow> string" where
  "strip s = rev (dropWhile isspace (rev (dropWhile isspace s)))"

text \<open>
  \<^verbatim>\<open>s.split(c)\<close> for a separator of one character: one piece more than there are
  separators, empty pieces kept.
\<close>

fun py_split :: "char \<Rightarrow> string \<Rightarrow> string list" where
  "py_split c [] = [[]]"
| "py_split c (x # xs) =
     (if x = c then [] # py_split c xs
      else (case py_split c xs of
              [] \<Rightarrow> [[x]]
            | piece # pieces \<Rightarrow> (x # piece) # pieces))"

text \<open>\<^verbatim>\<open>s.startswith(p)\<close>.\<close>

definition startswith :: "string \<Rightarrow> string \<Rightarrow> bool" where
  "startswith s p = (take (length p) s = p)"

text \<open>
  \<^verbatim>\<open>s.index(c)\<close>: the position of the first \<open>c\<close>, and \<^verbatim>\<open>ValueError\<close> when there is
  none.
\<close>

fun find_from :: "char \<Rightarrow> string \<Rightarrow> nat \<Rightarrow> nat option" where
  "find_from c [] k = None"
| "find_from c (x # xs) k = (if x = c then Some k else find_from c xs (Suc k))"

definition index :: "string \<Rightarrow> char \<Rightarrow> error + nat" where
  "index s c =
     (case find_from c s 0 of
        None \<Rightarrow> Inl (ValueError ''substring not found'')
      | Some k \<Rightarrow> Inr k)"

text \<open>
  Slices \<^verbatim>\<open>xs[a:b]\<close> and \<^verbatim>\<open>xs[a:]\<close>: a negative bound counts from the end, and both
  bounds are clipped to the sequence, so a slice never raises.
\<close>

definition clip :: "int \<Rightarrow> int \<Rightarrow> int" where
  "clip i n = (if i < 0 then max (i + n) 0 else min i n)"

definition slice :: "int \<Rightarrow> int \<Rightarrow> 'a list \<Rightarrow> 'a list" where
  "slice a b xs =
     (let n = int (length xs); lo = clip a n; hi = clip b n
      in take (nat (hi - lo)) (drop (nat lo) xs))"

definition slice_from :: "int \<Rightarrow> 'a list \<Rightarrow> 'a list" where
  "slice_from a xs = drop (nat (clip a (int (length xs)))) xs"

section \<open>The timestamp pattern\<close>

text \<open>
  The regular expressions the pattern of \<^verbatim>\<open>parse_markdown_table\<close> is built from:
  a literal, exactly \<open>n\<close> characters of a class, one or more characters of a class
  (greedy), alternation and sequence.
\<close>

datatype rx =
    Lit string
  | Rep nat "char \<Rightarrow> bool"
  | Plus "char \<Rightarrow> bool"
  | Alt rx rx
  | Seq rx rx

text \<open>
  \<open>rx_match r s\<close> lists what is left of \<open>s\<close> after each way \<open>r\<close> matches at its start,
  in the order a backtracking matcher tries them: the left alternative first, the
  longest repetition first.
\<close>

fun rx_match :: "rx \<Rightarrow> string \<Rightarrow> string list" where
  "rx_match (Lit w) s = (if startswith s w then [drop (length w) s] else [])"
| "rx_match (Rep n p) s =
     (if n \<le> length s \<and> list_all p (take n s) then [drop n s] else [])"
| "rx_match (Plus p) s =
     map (\<lambda>j. drop j s) (rev [1 ..< Suc (length (takeWhile p s))])"
| "rx_match (Alt a b) s = rx_match a s @ rx_match b s"
| "rx_match (Seq a b) s = concat (map (rx_match b) (rx_match a s))"

text \<open>
  A pattern \<open>pre(grp)\<close> whose only group is its last part: the text of the group in the
  first match at the start of \<open>s\<close>.
\<close>

definition match_here :: "rx \<Rightarrow> rx \<Rightarrow> string \<Rightarrow> string option" where
  "match_here pre grp s =
     (case concat (map (\<lambda>r. map (\<lambda>r'. take (length r - length r') r) (rx_match grp r))
                       (rx_match pre s)) of
        [] \<Rightarrow> None
      | g # _ \<Rightarrow> Some g)"

text \<open>\<^verbatim>\<open>re.search\<close> followed by \<^verbatim>\<open>group(1)\<close>: the leftmost position that matches.\<close>

fun re_search :: "rx \<Rightarrow> rx \<Rightarrow> string \<Rightarrow> string option" where
  "re_search pre grp [] = match_here pre grp []"
| "re_search pre grp (c # cs) =
     (case match_here pre grp (c # cs) of
        Some g \<Rightarrow> Some g
      | None \<Rightarrow> re_search pre grp cs)"

text \<open>
  \<^verbatim>\<open>(?:Standings|Regional Standings for \w+) as of (\d{4}-\d{2}-\d{2})\<close>, split at its
  group.
\<close>

definition TIMESTAMP_PRE :: rx where
  "TIMESTAMP_PRE =
     Seq (Alt (Lit ''Standings'') (Seq (Lit ''Regional Standings for '') (Plus re_word)))
         (Lit '' as of '')"

definition TIMESTAMP_GROUP :: rx where
  "TIMESTAMP_GROUP =
     Seq (Rep 4 re_digit) (Seq (Lit ''-'') (Seq (Rep 2 re_digit) (Seq (Lit ''-'') (Rep 2 re_digit))))"

text \<open>Lines 29 and 30 of the source: the date of the match, or \<^verbatim>\<open>"Unknown"\<close>.\<close>

definition timestamp_of :: "string \<Rightarrow> string" where
  "timestamp_of line =
     (case re_search TIMESTAMP_PRE TIMESTAMP_GROUP line of
        Some g \<Rightarrow> g
      | None \<Rightarrow> ''Unknown'')"

section \<open>The table parser\<close>

text \<open>The result of \<^verbatim>\<open>pd.DataFrame(data, columns=headers)\<close>: column names and rows.\<close>

record dataframe =
  columns :: "string list"
  rows :: "string list list"

definition URL_PREFIX :: string where
  "URL_PREFIX = ''https://github.com/ValveSoftware/counter-strike_regional_standings/blob/main/''"

definition HEADER_MARKER :: string where
  "HEADER_MARKER = ''| Standing |''"

text \<open>
  \<^verbatim>\<open>next((i for i, line in enumerate(lines) if line.startswith('| Standing |')), None)\<close>:
  the position of the first header line, counted from \<open>k\<close>.
\<close>

fun header_index_from :: "string list \<Rightarrow> nat \<Rightarrow> nat option" where
  "header_index_from [] k = None"
| "header_index_from (line # rest) k =
     (if startswith line HEADER_MARKER then Some k else header_index_from rest (Suc k))"

definition header_index :: "string list \<Rightarrow> nat option" where
  "header_index lines = header_index_from lines 0"

text \<open>\<^verbatim>\<open>[cell.strip() for cell in line.split('|')[1:-1]]\<close>.\<close>

definition cells :: "string \<Rightarrow> string list" where
  "cells line = map strip (slice 1 (-1) (py_split CHR ''|'' line))"

text \<open>
  Lines 39 and 40: the cells of the header line, the last one renamed. The assignment
  \<^verbatim>\<open>headers[-1] = "Details"\<close> raises \<^verbatim>\<open>IndexError\<close> on an empty list.
\<close>

definition extract_headers :: "string \<Rightarrow> error + string list" where
  "extract_headers line =
     (let headers = cells line in
      if headers = [] then Inl (IndexError ''list assignment index out of range'')
      else Inr (headers[length headers - 1 := ''Details'']))"

text \<open>
  Line 50, the new value of the last cell:
  \<^verbatim>\<open>f"https://.../blob/main/{detail_link[detail_link.index('(') + 1:-1]}"\<close>.
  \<^verbatim>\<open>index\<close> raises when the cell has no opening parenthesis.
\<close>

definition detail_url :: "string \<Rightarrow> error + string" where
  "detail_url detail_link =
     (case index detail_link CHR ''('' of
        Inl e \<Rightarrow> Inl e
      | Inr k \<Rightarrow> Inr (URL_PREFIX @ slice (int k + 1) (-1) detail_link))"

text \<open>
  The loop of lines 44 to 51 over the lines after the separator; \<open>data\<close> is the list
  built so far. A line is taken when it starts with a pipe and its cells are as many as
  the headers; its last cell is then rewritten, and an exception raised there ends the
  loop.
\<close>

fun extract_data :: "string list \<Rightarrow> string list \<Rightarrow> string list list \<Rightarrow> error + string list list" where
  "extract_data headers [] data = Inr data"
| "extract_data headers (line # rest) data =
     (if startswith line ''|'' \<and> CHR ''|'' \<in> set line then
        (let row = cells line in
         if row \<noteq> [] \<and> length row = length headers then
           (case detail_url (last row) of
              Inl e \<Rightarrow> Inl e
            | Inr url \<Rightarrow> extract_data headers rest (data @ [row[length row - 1 := url]]))
         else extract_data headers rest data)
      else extract_data headers rest data)"

text \<open>
  \<^verbatim>\<open>parse_markdown_table\<close> from line 29 on, given the list \<open>lines\<close>. The read
  \<^verbatim>\<open>lines[0]\<close> raises \<^verbatim>\<open>IndexError\<close> on an empty list. The data frame is built from
  rows that all have the width of \<open>headers\<close>.
\<close>

definition parse_lines :: "string list \<Rightarrow> error + (dataframe \<times> string)" where
  "parse_lines lines =
     (case lines of
        [] \<Rightarrow> Inl (IndexError ''list index out of range'')
      | line0 # _ \<Rightarrow>
          (let timestamp = timestamp_of line0 in
           case header_index lines of
             None \<Rightarrow> Inl (ValueError ''Could not find the header row in the Markdown table.'')
           | Some i \<Rightarrow>
               (case extract_headers (lines ! i) of
                  Inl e \<Rightarrow> Inl e
                | Inr headers \<Rightarrow>
                    (case extract_data headers (slice_from (int i + 2) lines) [] of
                       Inl e \<Rightarrow> Inl e
                     | Inr data \<Rightarrow>
                         if data = [] then Inl (ValueError ''No data rows found in the Markdown table.'')
                         else Inr (\<lparr>columns = headers, rows = data\<rparr>, timestamp)))))"

text \<open>Line 26: the text is stripped and split at newlines.\<close>

definition text_lines :: "string \<Rightarrow> string list" where
  "text_lines markdown_text = py_split (CHR 0x0A) (strip markdown_text)"

definition parse_markdown_table :: "string \<Rightarrow> error + (dataframe \<times> string)" where
  "parse_markdown_table markdown_text = parse_lines (text_lines markdown_text)"

section \<open>Fetching and display\<close>

definition LEADERBOARD_URLS :: "(string \<times> string) list" where
  "LEADERBOARD_URLS =
     [(''Global'', ''https://raw.githubusercontent.com/ValveSoftware/counter-strike_regional_standings/main/standings_global.md''),
      (''Americas'', ''https://raw.githubusercontent.com/ValveSoftware/counter-strike_regional_standings/main/standings_americas.md''),
      (''Asia'', ''https://raw.githubusercontent.com/ValveSoftware/counter-strike_regional_standings/main/standings_asia.md''),
      (''Europe'', ''https://raw.githubusercontent.com/ValveSoftware/counter-strike_regional_standings/main/standings_europe.md'')]"

text \<open>What \<^verbatim>\<open>requests.get\<close> returns, as far as the program reads it.\<close>

record response =
  status_code :: int
  resp_text :: string

text \<open>The calls into the user interface, in the order they are made.\<close>

datatype st_call =
    St_error string
  | St_dataframe dataframe nat
  | St_markdown string
  | St_text string
  | St_code string

text \<open>
  \<^verbatim>\<open>fetch_leaderboard_data\<close> on a cache miss, given the response to the request: the
  value returned (\<open>None\<close> as in the source) and the calls made.
\<close>

definition fetch_leaderboard_data :: "string \<Rightarrow> response \<Rightarrow> string option \<times> st_call list" where
  "fetch_leaderboard_data url response =
     (if status_code response = 200 then (Some (resp_text response), [])
      else (None, [St_error (''Failed to fetch data from '' @ url)]))"

text \<open>\<^verbatim>\<open>str(e)\<close> for the exceptions above.\<close>

fun str_error :: "error \<Rightarrow> string" where
  "str_error (ValueError m) = m"
| "str_error (IndexError m) = m"
| "str_error (KeyError k) = [CHR 0x27] @ k @ [CHR 0x27]"
| "str_error (UIError m) = m"

text \<open>
  The user interface library is not part of the repository. Whether one of its calls
  raises, and what, is the parameter \<open>raises\<close> of the display. \<open>try_calls\<close> makes the
  calls of a sequence in order up to the first that raises: it gives the calls that were
  made and the exception, if any. A call that raises shows nothing.
\<close>

fun try_calls :: "(st_call \<Rightarrow> error option) \<Rightarrow> st_call list \<Rightarrow> st_call list \<times> error option" where
  "try_calls raises [] = ([], None)"
| "try_calls raises (c # cs) =
     (case raises c of
        Some e \<Rightarrow> ([], Some e)
      | None \<Rightarrow> (case try_calls raises cs of (shown, r) \<Rightarrow> (c # shown, r)))"

text \<open>The handler of lines 78 to 83: the error and the two excerpts of the raw text.\<close>

definition error_display :: "error \<Rightarrow> string \<Rightarrow> st_call list" where
  "error_display e markdown_data =
     [St_error (''Error parsing the leaderboard data: '' @ str_error e),
      St_text ''Raw markdown data (first 1000 characters):'',
      St_code (slice 0 1000 markdown_data),
      St_text ''Last 1000 characters of markdown data:'',
      St_code (slice_from (- 1000) markdown_data)]"

text \<open>
  Lines 63 to 83 of \<^verbatim>\<open>display_leaderboard\<close>: what is shown for the value the fetch
  returned. \<^verbatim>\<open>if markdown_data:\<close> is false for \<open>None\<close> and for the empty text. The
  \<^verbatim>\<open>try\<close> of lines 64 to 77 covers the parser and the three calls that show the table
  and the two captions: an exception of the parser, or of one of these calls, goes to the
  handler, after the calls already made. The time of the fetch, already formatted, is the
  parameter \<open>last_updated\<close>. The calls outside the \<^verbatim>\<open>try\<close>, those of the handler and
  the error of the fetch, are taken to return normally.
\<close>

definition render :: "(st_call \<Rightarrow> error option) \<Rightarrow> string option \<Rightarrow> string \<Rightarrow> st_call list" where
  "render raises markdown_data last_updated =
     (case markdown_data of
        None \<Rightarrow> []
      | Some md \<Rightarrow>
          if md = [] then []
          else
            (case parse_markdown_table md of
               Inr (df, timestamp) \<Rightarrow>
                 (case try_calls raises
                    [St_dataframe df (35 * length (rows df) + 38),
                     St_markdown (''<p style='' @ [CHR 0x27] @ ''text-align: right; color: gray; font-size: small;''
                                  @ [CHR 0x27] @ ''>Standings as of: '' @ timestamp @ ''</p>''),
                     St_markdown (''<p style='' @ [CHR 0x27] @ ''text-align: right; color: gray; font-size: small;''
                                  @ [CHR 0x27] @ ''>Last fetched: '' @ last_updated @ ''</p>'')] of
                    (shown, None) \<Rightarrow> shown
                  | (shown, Some e) \<Rightarrow> shown @ error_display e md)
             | Inl e \<Rightarrow> error_display e md))"

text \<open>
  \<^verbatim>\<open>display_leaderboard\<close>; \<open>http\<close> gives the response for a location. A name that
  is not a key of \<^verbatim>\<open>LEADERBOARD_URLS\<close> raises \<^verbatim>\<open>KeyError\<close>.
\<close>

definition display_leaderboard ::
  "(st_call \<Rightarrow> error option) \<Rightarrow> string \<Rightarrow> (string \<Rightarrow> response) \<Rightarrow> string \<Rightarrow> error + st_call list" where
  "display_leaderboard raises leaderboard_name http last_updated =
     (case map_of LEADERBOARD_URLS leaderboard_name of
        None \<Rightarrow> Inl (KeyError leaderboard_name)
      | Some url \<Rightarrow>
          (case fetch_leaderboard_data url (http url) of
             (markdown_data, shown) \<Rightarrow> Inr (shown @ render raises markdown_data last_updated)))"

section \<open>The link rule as the specification words it\<close>

text \<open>
  The text strictly between the first opening parenthesis and the last closing
  parenthesis of a cell, as the specification describes the link target.
\<close>

definition spec_between_parens :: "string \<Rightarrow> string" where
  "spec_between_parens cell =
     (let i = length (takeWhile (\<lambda>c. c \<noteq> CHR ''('') cell);
          j = length cell - 1 - length (takeWhile (\<lambda>c. c \<noteq> CHR '')'') (rev cell))
      in take (j - (i + 1)) (drop (i + 1) cell))"

section \<open>Notions used in the statements\<close>

text \<open>
  The test of lines 45 and 47 that decides whether a line becomes a row: it starts with a
  pipe and has as many cells as there are headers, at least one.
\<close>

definition kept :: "string list \<Rightarrow> string \<Rightarrow> bool" where
  "kept headers line =
     (startswith line ''|'' \<and> cells line \<noteq> [] \<and> length (cells line) = length headers)"

text \<open>The cells of a header line with the last one renamed, as lines 39 and 40 leave them.\<close>

definition header_cells :: "string \<Rightarrow> string list" where
  "header_cells line = (cells line)[length (cells line) - 1 := ''Details'']"

text \<open>
  A date as the pattern captures it: four digits, a hyphen, two digits, a hyphen and two
  digits.
\<close>

definition date_shaped :: "string \<Rightarrow> bool" where
  "date_shaped d =
     (length d = 10 \<and> list_all re_digit (take 4 d) \<and> d ! 4 = CHR ''-''
      \<and> list_all re_digit (take 2 (drop 5 d)) \<and> d ! 7 = CHR ''-''
      \<and> list_all re_digit (drop 8 d))"

text \<open>
  The two phrases of the specification that carry the date \<open>d\<close>:
  \<^verbatim>\<open>Standings as of YYYY-MM-DD\<close> and \<^verbatim>\<open>Regional Standings for <word> as of YYYY-MM-DD\<close>,
  where the word is a non-empty run of word characters.
\<close>

definition stamp_phrase :: "string \<Rightarrow> string \<Rightarrow> bool" where
  "stamp_phrase m d =
     (date_shaped d \<and>
      (m = ''Standings as of '' @ d \<or>
       (\<exists>w. w \<noteq> [] \<and> list_all re_word w \<and> m = ''Regional Standings for '' @ w @ '' as of '' @ d)))"

section \<open>Example documents\<close>

text \<open>
  Small documents on which the theorems below are exercised: a well-formed one whose
  last header is not yet named Details, and variants with a line of the wrong width,
  without the header marker, without any row of the right width, with a row whose last
  cell has no parenthesis, with an indented header on the first line, and with text after
  the closing parenthesis.
\<close>

definition example_doc :: string where
  "example_doc =
     ''Standings as of 2024-01-10'' @ [CHR 0x0A] @
     ''| Standing | Team | Link |'' @ [CHR 0x0A] @
     ''|---|---|---|'' @ [CHR 0x0A] @
     ''| 1 | Alpha | View(standings/detail1.md) |''"

definition example_doc_wide_line :: string where
  "example_doc_wide_line =
     ''Standings as of 2024-01-10'' @ [CHR 0x0A] @
     ''| Standing | Team | Link |'' @ [CHR 0x0A] @
     ''|---|---|---|'' @ [CHR 0x0A] @
     ''| 7 | too | many | cells |'' @ [CHR 0x0A] @
     ''| 1 | Alpha | View(standings/detail1.md) |''"

definition example_doc_no_header :: string where
  "example_doc_no_header =
     ''Standings as of 2024-01-10'' @ [CHR 0x0A] @
     ''| Rank | Team | Link |'' @ [CHR 0x0A] @
     ''|---|---|---|'' @ [CHR 0x0A] @
     ''| 1 | Alpha | View(standings/detail1.md) |''"

definition example_doc_no_rows :: string where
  "example_doc_no_rows =
     ''Standings as of 2024-01-10'' @ [CHR 0x0A] @
     ''| Standing | Team | Link |'' @ [CHR 0x0A] @
     ''|---|---|---|'' @ [CHR 0x0A] @
     ''| 1 | Alpha |'' @ [CHR 0x0A] @
     ''not a row''"

definition example_doc_no_paren :: string where
  "example_doc_no_paren =
     ''Standings as of 2024-01-10'' @ [CHR 0x0A] @
     ''| Standing | Team | Link |'' @ [CHR 0x0A] @
     ''|---|---|---|'' @ [CHR 0x0A] @
     ''| 1 | Alpha | View(standings/detail1.md) |'' @ [CHR 0x0A] @
     ''| 2 | Beta | no link here |''"

definition example_doc_indented :: string where
  "example_doc_indented =
     ''  | Standing | Link |'' @ [CHR 0x0A] @
     ''|---|---|'' @ [CHR 0x0A] @
     ''| 1 | View(a.md) |''"

definition example_doc_trailing :: string where
  "example_doc_trailing =
     ''| Standing | Link |'' @ [CHR 0x0A] @
     ''|---|---|'' @ [CHR 0x0A] @
     ''| 1 | View(a)b |''"

text \<open>The well-formed document with a first line that carries no date.\<close>

definition example_doc_untitled :: string where
  "example_doc_untitled =
     ''Latest standings'' @ [CHR 0x0A] @
     ''| Standing | Team | Link |'' @ [CHR 0x0A] @
     ''|---|---|---|'' @ [CHR 0x0A] @
     ''| 1 | Alpha | View(standings/detail1.md) |''"

text \<open>
  A document whose first line is empty, and one that ends, after an empty line, with a
  line of the wrong width.
\<close>

definition example_doc_blank_first :: string where
  "example_doc_blank_first =
     [CHR 0x0A] @
     ''Standings as of 2024-03-15'' @ [CHR 0x0A] @
     ''| Standing | Link |'' @ [CHR 0x0A] @
     ''|---|---|'' @ [CHR 0x0A] @
     ''| 1 | V(a) |''"

definition example_doc_bad_last :: string where
  "example_doc_bad_last =
     ''| Standing | Link |'' @ [CHR 0x0A] @
     [CHR 0x0A] @
     ''| bad''"

section \<open>Splitting, slicing and searching\<close>

lemma py_split_not_Nil: "py_split c s \<noteq> []"
  by (induction s) (auto split: list.splits)

lemma length_py_split: "length (py_split c s) = Suc (count_list s c)"
  by (induction s) (auto split: list.splits simp: py_split_not_Nil)

lemma text_lines_not_Nil: "text_lines t \<noteq> []"
  by (simp add: text_lines_def py_split_not_Nil)

lemma length_slice_inner: "length (slice 1 (- 1) xs) = length xs - 2"
  by (auto simp: slice_def clip_def Let_def)

lemma length_cells: "length (cells l) = count_list l CHR ''|'' - 1"
  by (simp add: cells_def length_slice_inner length_py_split)

lemma startswith_iff: "startswith s p \<longleftrightarrow> (\<exists>r. s = p @ r)"
  unfolding startswith_def
  by (metis append_eq_conv_conj append_take_drop_id)

lemma startswith_pipe_mem: "startswith l ''|'' \<Longrightarrow> CHR ''|'' \<in> set l"
  by (auto simp: startswith_iff)

lemma cells_header_not_Nil:
  assumes "startswith l HEADER_MARKER"
  shows "cells l \<noteq> []"
proof -
  from assms obtain r where "l = HEADER_MARKER @ r"
    by (auto simp: startswith_iff)
  then have "2 \<le> count_list l CHR ''|''"
    by (simp add: HEADER_MARKER_def)
  then have "0 < length (cells l)"
    by (simp add: length_cells)
  then show ?thesis by auto
qed

lemma extract_headers_marker:
  "startswith l HEADER_MARKER \<Longrightarrow>
   extract_headers l = Inr ((cells l)[length (cells l) - 1 := ''Details''])"
  by (simp add: extract_headers_def Let_def cells_header_not_Nil)

lemma header_index_from_Some:
  "header_index_from ls k = Some i \<Longrightarrow>
   k \<le> i \<and> i - k < length ls \<and> startswith (ls ! (i - k)) HEADER_MARKER"
proof (induction ls arbitrary: k)
  case Nil
  then show ?case by simp
next
  case (Cons l ls)
  show ?case
  proof (cases "startswith l HEADER_MARKER")
    case True
    with Cons.prems show ?thesis by simp
  next
    case False
    with Cons.prems have "header_index_from ls (Suc k) = Some i" by simp
    from Cons.IH [OF this]
    have a: "Suc k \<le> i" and b: "i - Suc k < length ls"
      and c: "startswith (ls ! (i - Suc k)) HEADER_MARKER" by auto
    from a have d: "i - k = Suc (i - Suc k)" by arith
    from a b c show ?thesis unfolding d by simp
  qed
qed

lemma header_index_from_None:
  "header_index_from ls k = None \<longleftrightarrow> (\<forall>l\<in>set ls. \<not> startswith l HEADER_MARKER)"
  by (induction ls arbitrary: k) auto

lemma header_index_from_append:
  "header_index_from (xs @ ys) k =
     (case header_index_from xs k of
        Some i \<Rightarrow> Some i
      | None \<Rightarrow> header_index_from ys (k + length xs))"
  by (induction xs arbitrary: k) (auto split: option.splits)

lemma find_from_None: "find_from c s k = None \<longleftrightarrow> c \<notin> set s"
  by (induction s arbitrary: k) auto

lemma find_from_Some:
  "c \<in> set s \<Longrightarrow> find_from c s k = Some (k + length (takeWhile (\<lambda>x. x \<noteq> c) s))"
  by (induction s arbitrary: k) auto

lemma detail_url_Inl:
  "CHR ''('' \<notin> set d \<Longrightarrow> detail_url d = Inl (ValueError ''substring not found'')"
  by (simp add: detail_url_def index_def find_from_None [THEN iffD2])

lemma slice_to_last:
  "k < length d \<Longrightarrow> slice (int k + 1) (- 1) d = drop (Suc k) (butlast d)"
proof -
  assume k: "k < length d"
  have a: "nat (int k + 1) = Suc k" by simp
  have b: "nat (max (int (length d) - 1) 0 - (int k + 1)) = length d - 1 - Suc k"
    using k by (auto simp: max_def)
  show ?thesis
    using k by (simp add: slice_def clip_def Let_def a b butlast_conv_take drop_take)
qed

lemma takeWhile_neq_less: "c \<in> set s \<Longrightarrow> length (takeWhile (\<lambda>x. x \<noteq> c) s) < length s"
  by (induction s) auto

lemma detail_url_Inr:
  assumes "CHR ''('' \<in> set d"
  shows "detail_url d =
         Inr (URL_PREFIX @ drop (Suc (length (takeWhile (\<lambda>x. x \<noteq> CHR ''('') d))) (butlast d))"
proof -
  let ?k = "length (takeWhile (\<lambda>x. x \<noteq> CHR ''('') d)"
  have "?k < length d"
    using assms by (rule takeWhile_neq_less)
  then show ?thesis
    using assms by (simp add: detail_url_def index_def find_from_Some slice_to_last)
qed

lemma extract_data_Cons:
  "extract_data h (l # ls) data =
     (if kept h l then
        (case detail_url (last (cells l)) of
           Inl e \<Rightarrow> Inl e
         | Inr u \<Rightarrow> extract_data h ls (data @ [(cells l)[length (cells l) - 1 := u]]))
      else extract_data h ls data)"
  by (auto simp: kept_def Let_def startswith_pipe_mem)

declare extract_data.simps(2) [simp del]


lemma extract_data_width:
  "extract_data h ls data = Inr out \<Longrightarrow> \<forall>r\<in>set data. length r = length h \<Longrightarrow>
   \<forall>r\<in>set out. length r = length h"
proof (induction ls arbitrary: data)
  case Nil
  then show ?case by simp
next
  case (Cons l ls)
  show ?case
  proof (cases "kept h l")
    case False
    with Cons.prems(1) have "extract_data h ls data = Inr out"
      by (simp add: extract_data_Cons)
    from Cons.IH [OF this Cons.prems(2)] show ?thesis .
  next
    case True
    with Cons.prems(1) obtain u where
      u: "detail_url (last (cells l)) = Inr u"
      and rest: "extract_data h ls (data @ [(cells l)[length (cells l) - 1 := u]]) = Inr out"
      by (auto simp: extract_data_Cons split: sum.splits)
    from True have "length ((cells l)[length (cells l) - 1 := u]) = length h"
      by (simp add: kept_def)
    with Cons.prems(2)
    have "\<forall>r\<in>set (data @ [(cells l)[length (cells l) - 1 := u]]). length r = length h"
      by auto
    from Cons.IH [OF rest this] show ?thesis .
  qed
qed

lemma extract_data_skip:
  "\<not> kept h l \<Longrightarrow> extract_data h (xs @ l # ys) data = extract_data h (xs @ ys) data"
proof (induction xs arbitrary: data)
  case Nil
  then show ?case by (simp add: extract_data_Cons)
next
  case (Cons x xs)
  then show ?case
    by (simp add: extract_data_Cons split: sum.splits)
qed

lemma extract_data_none_kept:
  "\<forall>l\<in>set ls. \<not> kept h l \<Longrightarrow> extract_data h ls data = Inr data"
  by (induction ls arbitrary: data) (simp_all add: extract_data_Cons)

lemma extract_data_raises:
  "l \<in> set ls \<Longrightarrow> kept h l \<Longrightarrow> CHR ''('' \<notin> set (last (cells l)) \<Longrightarrow>
   extract_data h ls data = Inl (ValueError ''substring not found'')"
proof (induction ls arbitrary: data)
  case Nil
  then show ?case by simp
next
  case (Cons x xs)
  show ?case
  proof (cases "x = l")
    case True
    with Cons.prems show ?thesis
      by (simp add: extract_data_Cons detail_url_Inl)
  next
    case False
    with Cons.prems have mem: "l \<in> set xs" by simp
    note ih = Cons.IH [OF mem Cons.prems(2) Cons.prems(3)]
    show ?thesis
    proof (cases "kept h x")
      case False
      then show ?thesis by (simp add: extract_data_Cons ih)
    next
      case True
      show ?thesis
      proof (cases "CHR ''('' \<in> set (last (cells x))")
        case True
        with \<open>kept h x\<close> show ?thesis
          by (simp add: extract_data_Cons detail_url_Inr ih)
      next
        case False
        with \<open>kept h x\<close> show ?thesis
          by (simp add: extract_data_Cons detail_url_Inl)
      qed
    qed
  qed
qed

lemma extract_data_origin:
  "extract_data h ls data = Inr out \<Longrightarrow> r \<in> set out \<Longrightarrow>
   r \<in> set data \<or>
   (\<exists>l\<in>set ls. kept h l \<and>
      (\<exists>u. detail_url (last (cells l)) = Inr u \<and> r = (cells l)[length (cells l) - 1 := u]))"
proof (induction ls arbitrary: data)
  case Nil
  then show ?case by simp
next
  case (Cons x xs)
  show ?case
  proof (cases "kept h x")
    case False
    with Cons.prems(1) have "extract_data h xs data = Inr out"
      by (simp add: extract_data_Cons)
    from Cons.IH [OF this Cons.prems(2)] show ?thesis by auto
  next
    case True
    with Cons.prems(1) obtain u where
      u: "detail_url (last (cells x)) = Inr u"
      and rest: "extract_data h xs (data @ [(cells x)[length (cells x) - 1 := u]]) = Inr out"
      by (auto simp: extract_data_Cons split: sum.splits)
    from Cons.IH [OF rest Cons.prems(2)] True u show ?thesis by auto
  qed
qed

section \<open>The parser on a list of lines\<close>

lemma slice_from_drop: "slice_from (int i + 2) xs = drop (i + 2) xs"
  by (auto simp: slice_from_def clip_def min_def nat_add_distrib)

lemma header_index_Some:
  assumes "header_index lines = Some i"
  shows "i < length lines" and "startswith (lines ! i) HEADER_MARKER"
  using header_index_from_Some [of lines 0 i] assms
  by (simp_all add: header_index_def)

lemma length_header_cells: "length (header_cells l) = length (cells l)"
  by (simp add: header_cells_def)

lemma parse_lines_Some:
  assumes "header_index lines = Some i"
  shows "parse_lines lines =
           (case extract_data (header_cells (lines ! i)) (drop (i + 2) lines) [] of
              Inl e \<Rightarrow> Inl e
            | Inr data \<Rightarrow>
                if data = [] then Inl (ValueError ''No data rows found in the Markdown table.'')
                else Inr (\<lparr>columns = header_cells (lines ! i), rows = data\<rparr>, timestamp_of (hd lines)))"
proof -
  from header_index_Some [OF assms] have ne: "lines \<noteq> []"
    and hd: "extract_headers (lines ! i) = Inr (header_cells (lines ! i))"
    by (auto simp: extract_headers_marker header_cells_def)
  from ne obtain l0 ls where eq: "lines = l0 # ls" by (cases lines) auto
  show ?thesis
    using assms hd unfolding eq
    by (simp add: parse_lines_def slice_from_drop del: header_index_from.simps split: sum.splits)
qed

lemma parse_lines_None:
  assumes "header_index lines = None" and "lines \<noteq> []"
  shows "parse_lines lines = Inl (ValueError ''Could not find the header row in the Markdown table.'')"
  using assms by (cases lines) (simp_all add: parse_lines_def)

lemma parse_lines_Inr:
  assumes "parse_lines lines = Inr (df, ts)"
  shows "\<exists>i data. header_index lines = Some i
           \<and> extract_data (header_cells (lines ! i)) (drop (i + 2) lines) [] = Inr data
           \<and> df = \<lparr>columns = header_cells (lines ! i), rows = data\<rparr>
           \<and> ts = timestamp_of (hd lines) \<and> data \<noteq> []"
proof (cases "header_index lines")
  case None
  with assms show ?thesis
    by (cases lines) (simp_all add: parse_lines_def)
next
  case (Some i)
  with assms show ?thesis
    by (auto simp: parse_lines_Some split: sum.splits if_splits)
qed

lemma header_index_prefix:
  assumes "header_index pre = Some i"
  shows "header_index (pre @ post) = Some i" and "(pre @ post) ! i = pre ! i"
proof -
  show "header_index (pre @ post) = Some i"
    using assms by (simp add: header_index_def header_index_from_append)
  from header_index_Some(1) [OF assms] show "(pre @ post) ! i = pre ! i"
    by (simp add: nth_append)
qed


lemma parse_skip_line:
  assumes pre: "header_index pre = Some i" and sep: "Suc i < length pre"
    and width: "length (cells line) \<noteq> length (cells (pre ! i))"
  shows "parse_lines (pre @ line # post) = parse_lines (pre @ post)"
proof -
  have nk: "\<not> kept (header_cells (pre ! i)) line"
    using width by (simp add: kept_def length_header_cells)
  have d1: "drop (i + 2) (pre @ line # post) = drop (i + 2) pre @ line # post"
    using sep by simp
  have d2: "drop (i + 2) (pre @ post) = drop (i + 2) pre @ post"
    using sep by simp
  from sep have ne: "pre \<noteq> []" by auto
  have h: "hd (pre @ line # post) = hd (pre @ post)"
    using ne by simp
  show ?thesis
    unfolding parse_lines_Some [OF header_index_prefix(1) [OF pre]]
      header_index_prefix(2) [OF pre] d1 d2 h extract_data_skip [OF nk] ..
qed

text \<open>An exception of the call that shows the table reaches the handler of line 78.\<close>

lemma render_dataframe_raises:
  assumes "parse_markdown_table md = Inr (df, ts)" and "md \<noteq> []"
    and "raises (St_dataframe df (35 * length (rows df) + 38)) = Some e"
  shows "render raises (Some md) last_updated = error_display e md"
  using assms by (simp add: render_def)

section \<open>The rewritten last cell\<close>

lemma detail_url_InrD:
  assumes "detail_url cell = Inr url"
  shows "CHR ''('' \<in> set cell"
    and "url = URL_PREFIX @ drop (Suc (length (takeWhile (\<lambda>c. c \<noteq> CHR ''('') cell))) (butlast cell)"
proof -
  show m: "CHR ''('' \<in> set cell"
  proof (rule ccontr)
    assume "CHR ''('' \<notin> set cell"
    from detail_url_Inl [OF this] assms show False by simp
  qed
  from detail_url_Inr [OF m] assms
  show "url = URL_PREFIX @ drop (Suc (length (takeWhile (\<lambda>c. c \<noteq> CHR ''('') cell))) (butlast cell)"
    by simp
qed

lemma spec_between_parens_closed:
  assumes "cell \<noteq> []" and "last cell = CHR '')''"
  shows "spec_between_parens cell =
         drop (Suc (length (takeWhile (\<lambda>c. c \<noteq> CHR ''('') cell))) (butlast cell)"
proof -
  have "takeWhile (\<lambda>c. c \<noteq> CHR '')'') (rev cell) = []"
  proof (cases "rev cell")
    case Nil
    with assms(1) show ?thesis by simp
  next
    case (Cons x xs)
    then have "x = hd (rev cell)" by simp
    also have "\<dots> = last cell" using assms(1) by (simp add: hd_rev)
    finally show ?thesis using Cons assms(2) by simp
  qed
  then show ?thesis
    by (simp add: spec_between_parens_def Let_def butlast_conv_take drop_take)
qed

lemma parse_row_origin:
  assumes "parse_markdown_table md = Inr (df, ts)" and "r \<in> set (rows df)"
  shows "\<exists>line\<in>set (text_lines md). cells line \<noteq> [] \<and> butlast r = butlast (cells line)
           \<and> detail_url (last (cells line)) = Inr (last r)"
proof -
  from assms(1) obtain i data where
    ex: "extract_data (header_cells (text_lines md ! i)) (drop (i + 2) (text_lines md)) [] = Inr data"
    and df: "df = \<lparr>columns = header_cells (text_lines md ! i), rows = data\<rparr>"
    using parse_lines_Inr [of "text_lines md" df ts]
    by (auto simp: parse_markdown_table_def)
  from assms(2) df have "r \<in> set data" by simp
  from extract_data_origin [OF ex this] obtain l u where
    l: "l \<in> set (drop (i + 2) (text_lines md))"
    and k: "kept (header_cells (text_lines md ! i)) l"
    and u: "detail_url (last (cells l)) = Inr u"
    and r: "r = (cells l)[length (cells l) - 1 := u]"
    by auto
  from l have mem: "l \<in> set (text_lines md)" by (rule in_set_dropD)
  from k have ne: "cells l \<noteq> []" by (simp add: kept_def)
  from ne r have "butlast r = butlast (cells l)" and "last r = u"
    by (simp_all add: butlast_list_update last_list_update)
  with mem ne u show ?thesis by auto
qed

section \<open>Matching the timestamp pattern\<close>

lemma rx_match_Lit: "r \<in> set (rx_match (Lit w) s) \<longleftrightarrow> s = w @ r"
  by (auto simp: startswith_iff)

lemma rx_match_Rep:
  "r \<in> set (rx_match (Rep n p) s) \<longleftrightarrow> (\<exists>m. s = m @ r \<and> length m = n \<and> list_all p m)"
proof
  assume "r \<in> set (rx_match (Rep n p) s)"
  then have "n \<le> length s" and "list_all p (take n s)" and "r = drop n s"
    by (auto split: if_splits)
  then have "s = take n s @ r \<and> length (take n s) = n \<and> list_all p (take n s)"
    by simp
  then show "\<exists>m. s = m @ r \<and> length m = n \<and> list_all p m" by blast
next
  assume "\<exists>m. s = m @ r \<and> length m = n \<and> list_all p m"
  then show "r \<in> set (rx_match (Rep n p) s)" by auto
qed

lemma take_takeWhile_all:
  "j \<le> length (takeWhile p s) \<Longrightarrow> list_all p (take j s)"
proof -
  assume j: "j \<le> length (takeWhile p s)"
  have "take j s = take j (takeWhile p s @ dropWhile p s)" by simp
  also have "\<dots> = take j (takeWhile p s)" using j by (simp del: takeWhile_dropWhile_id)
  finally have "set (take j s) \<subseteq> set (takeWhile p s)" by (simp add: set_take_subset)
  then show ?thesis
    by (auto simp: list_all_iff dest: set_takeWhileD)
qed

lemma rx_match_Plus:
  assumes "r \<in> set (rx_match (Plus p) s)"
  shows "\<exists>m. s = m @ r \<and> m \<noteq> [] \<and> list_all p m"
proof -
  from assms obtain j where j: "1 \<le> j" "j \<le> length (takeWhile p s)" and r: "r = drop j s"
    by auto
  have "length (takeWhile p s) \<le> length s" by (rule length_takeWhile_le)
  with j have "take j s \<noteq> []" by auto
  moreover have "s = take j s @ r" by (simp add: r)
  moreover have "list_all p (take j s)" using j(2) by (rule take_takeWhile_all)
  ultimately show ?thesis by blast
qed

lemma rx_match_Seq:
  "r \<in> set (rx_match (Seq a b) s) \<longleftrightarrow> (\<exists>r1\<in>set (rx_match a s). r \<in> set (rx_match b r1))"
  by auto

lemma rx_match_Alt:
  "r \<in> set (rx_match (Alt a b) s) \<longleftrightarrow> r \<in> set (rx_match a s) \<or> r \<in> set (rx_match b s)"
  by auto

lemmas rx_match_mem = rx_match_Seq rx_match_Alt rx_match_Lit rx_match_Rep

declare rx_match.simps [simp del]

lemma timestamp_group_sound:
  assumes "r' \<in> set (rx_match TIMESTAMP_GROUP r)"
  shows "\<exists>d. r = d @ r' \<and> date_shaped d"
proof -
  from assms obtain y m dd where
    r: "r = y @ ''-'' @ m @ ''-'' @ dd @ r'"
    and y: "length y = 4" "list_all re_digit y"
    and m: "length m = 2" "list_all re_digit m"
    and dd: "length dd = 2" "list_all re_digit dd"
    by (auto simp: TIMESTAMP_GROUP_def rx_match_mem)
  have "date_shaped (y @ ''-'' @ m @ ''-'' @ dd)"
    using y m dd by (simp add: date_shaped_def nth_append)
  with r show ?thesis by auto
qed

lemma timestamp_pre_sound:
  assumes "r \<in> set (rx_match TIMESTAMP_PRE s)"
  shows "s = ''Standings as of '' @ r \<or>
         (\<exists>w. w \<noteq> [] \<and> list_all re_word w \<and> s = ''Regional Standings for '' @ w @ '' as of '' @ r)"
proof -
  from assms obtain r1 where r1: "r1 = '' as of '' @ r"
    and alt: "r1 \<in> set (rx_match (Lit ''Standings'') s) \<or>
              (\<exists>r2\<in>set (rx_match (Lit ''Regional Standings for '') s). r1 \<in> set (rx_match (Plus re_word) r2))"
    by (auto simp: TIMESTAMP_PRE_def rx_match_mem)
  from alt show ?thesis
  proof
    assume "r1 \<in> set (rx_match (Lit ''Standings'') s)"
    then have "s = ''Standings'' @ r1" by (simp only: rx_match_Lit)
    with r1 show ?thesis by simp
  next
    assume "\<exists>r2\<in>set (rx_match (Lit ''Regional Standings for '') s). r1 \<in> set (rx_match (Plus re_word) r2)"
    then obtain r2 where s: "s = ''Regional Standings for '' @ r2"
      and p: "r1 \<in> set (rx_match (Plus re_word) r2)"
      by (auto simp only: rx_match_Lit)
    from rx_match_Plus [OF p] obtain w where "r2 = w @ r1" "w \<noteq> []" "list_all re_word w"
      by blast
    with s r1 show ?thesis by auto
  qed
qed

lemma match_here_Some:
  assumes "match_here pre grp s = Some g"
  shows "\<exists>r\<in>set (rx_match pre s). \<exists>r'\<in>set (rx_match grp r). g = take (length r - length r') r"
proof -
  let ?all = "concat (map (\<lambda>r. map (\<lambda>r'. take (length r - length r') r) (rx_match grp r))
                       (rx_match pre s))"
  from assms obtain rest where "?all = g # rest"
    by (auto simp: match_here_def split: list.splits)
  then have "g \<in> set ?all" by simp
  then show ?thesis by auto
qed

lemma re_search_Some:
  "re_search pre grp s = Some g \<Longrightarrow> \<exists>p q. s = p @ q \<and> match_here pre grp q = Some g"
proof (induction s)
  case Nil
  then show ?case by simp
next
  case (Cons c cs)
  show ?case
  proof (cases "match_here pre grp (c # cs)")
    case (Some g')
    with Cons.prems have "match_here pre grp (c # cs) = Some g" by simp
    then have "c # cs = [] @ (c # cs) \<and> match_here pre grp (c # cs) = Some g" by simp
    then show ?thesis by blast
  next
    case None
    with Cons.prems have "re_search pre grp cs = Some g" by simp
    from Cons.IH [OF this] obtain p q where "cs = p @ q" "match_here pre grp q = Some g"
      by blast
    then have "c # cs = (c # p) @ q \<and> match_here pre grp q = Some g" by simp
    then show ?thesis by blast
  qed
qed

lemma match_here_sound:
  assumes mh: "match_here TIMESTAMP_PRE TIMESTAMP_GROUP s = Some g"
  shows "\<exists>m q. s = m @ q \<and> stamp_phrase m g"
proof -
  from match_here_Some [OF mh] obtain r r' where
    r: "r \<in> set (rx_match TIMESTAMP_PRE s)" and r': "r' \<in> set (rx_match TIMESTAMP_GROUP r)"
    and g: "g = take (length r - length r') r" by blast
  from timestamp_group_sound [OF r'] obtain d where d: "r = d @ r'" "date_shaped d" by blast
  with g have gd: "g = d" by simp
  from timestamp_pre_sound [OF r] show ?thesis
  proof
    assume "s = ''Standings as of '' @ r"
    then have "s = (''Standings as of '' @ d) @ r' \<and> stamp_phrase (''Standings as of '' @ d) g"
      using d gd by (simp add: stamp_phrase_def)
    then show ?thesis by blast
  next
    assume "\<exists>w. w \<noteq> [] \<and> list_all re_word w \<and> s = ''Regional Standings for '' @ w @ '' as of '' @ r"
    then obtain w where w: "w \<noteq> []" "list_all re_word w"
      and s: "s = ''Regional Standings for '' @ w @ '' as of '' @ r" by blast
    have "s = (''Regional Standings for '' @ w @ '' as of '' @ d) @ r'
          \<and> stamp_phrase (''Regional Standings for '' @ w @ '' as of '' @ d) g"
      using w s d gd unfolding stamp_phrase_def by auto
    then show ?thesis by blast
  qed
qed

lemma timestamp_search_sound:
  assumes "re_search TIMESTAMP_PRE TIMESTAMP_GROUP line = Some g"
  shows "\<exists>p m q. line = p @ m @ q \<and> stamp_phrase m g"
proof -
  from re_search_Some [OF assms] obtain p s where line: "line = p @ s"
    and mh: "match_here TIMESTAMP_PRE TIMESTAMP_GROUP s = Some g" by blast
  from match_here_sound [OF mh] line show ?thesis by blast
qed

lemma date_shaped_explicit:
  assumes "date_shaped d"
  shows "\<exists>a b c e f g h k. d = [a, b, c, e, CHR ''-'', f, g, CHR ''-'', h, k]
           \<and> re_digit a \<and> re_digit b \<and> re_digit c \<and> re_digit e
           \<and> re_digit f \<and> re_digit g \<and> re_digit h \<and> re_digit k"
proof -
  from assms have "length d = 10" by (simp add: date_shaped_def)
  then obtain a b c e x f g y h k where d: "d = [a, b, c, e, x, f, g, y, h, k]"
    by (auto simp: eval_nat_numeral length_Suc_conv)
  from assms show ?thesis
    unfolding d by (simp add: date_shaped_def)
qed

lemma timestamp_group_complete:
  assumes "date_shaped d"
  shows "rx_match TIMESTAMP_GROUP (d @ rest) = [rest]"
proof -
  from date_shaped_explicit [OF assms] obtain a b c e f g h k where
    d: "d = [a, b, c, e, CHR ''-'', f, g, CHR ''-'', h, k]"
    and "re_digit a" "re_digit b" "re_digit c" "re_digit e"
      "re_digit f" "re_digit g" "re_digit h" "re_digit k"
    by blast
  then show ?thesis
    unfolding d by (simp add: TIMESTAMP_GROUP_def rx_match.simps startswith_def)
qed

lemma timestamp_pre_standings:
  "rx_match TIMESTAMP_PRE (''Standings as of '' @ x) = [x]"
  by (simp add: TIMESTAMP_PRE_def rx_match.simps startswith_def)

lemma concat_map_all_Nil: "\<forall>x\<in>set xs. f x = [] \<Longrightarrow> concat (map f xs) = []"
  by (induction xs) auto

lemma not_word_space: "\<not> re_word CHR '' ''"
  by (simp add: re_word_def)

lemma plus_then_literal:
  assumes w: "w \<noteq> []" "list_all re_word w"
  shows "rx_match (Seq (Plus re_word) (Lit '' as of '')) (w @ '' as of '' @ x) = [x]"
proof -
  let ?s = "w @ '' as of '' @ x"
  let ?f = "\<lambda>j. rx_match (Lit '' as of '') (drop j ?s)"
  have tw: "takeWhile re_word ?s = w"
    using w(2) by (simp add: list_all_iff not_word_space)
  from w(1) have n: "1 \<le> length w" by (cases w) auto
  then have up: "rev [1 ..< Suc (length w)] = length w # rev [1 ..< length w]" by simp
  have last: "?f (length w) = [x]"
    by (simp add: rx_match.simps startswith_def)
  have others: "\<forall>j\<in>set (rev [1 ..< length w]). ?f j = []"
  proof
    fix j assume "j \<in> set (rev [1 ..< length w])"
    then have j: "j < length w" by simp
    then have "drop j ?s = w ! j # drop (Suc j) w @ '' as of '' @ x"
      by (simp add: Cons_nth_drop_Suc)
    moreover from j w(2) have "re_word (w ! j)" by (simp add: list_all_length)
    then have "w ! j \<noteq> CHR '' ''" using not_word_space by auto
    ultimately show "?f j = []"
      by (simp add: rx_match.simps startswith_def)
  qed
  have "rx_match (Seq (Plus re_word) (Lit '' as of '')) ?s
        = concat (map ?f (rev [1 ..< Suc (length w)]))"
    by (simp only: rx_match.simps tw map_map o_def)
  also have "\<dots> = ?f (length w) @ concat (map ?f (rev [1 ..< length w]))"
    by (simp only: up list.map concat.simps)
  also have "\<dots> = [x]"
    by (simp only: last concat_map_all_Nil [OF others] append_Nil2)
  finally show ?thesis .
qed

lemma timestamp_pre_regional:
  assumes "w \<noteq> []" "list_all re_word w"
  shows "rx_match TIMESTAMP_PRE (''Regional Standings for '' @ w @ '' as of '' @ x) = [x]"
proof -
  have "rx_match TIMESTAMP_PRE (''Regional Standings for '' @ w @ '' as of '' @ x)
        = rx_match (Seq (Plus re_word) (Lit '' as of '')) (w @ '' as of '' @ x)"
    by (simp add: TIMESTAMP_PRE_def rx_match.simps startswith_def)
  with plus_then_literal [OF assms] show ?thesis by simp
qed

lemma match_here_single:
  assumes "rx_match pre s = [d @ rest]" and "rx_match grp (d @ rest) = [rest]"
  shows "match_here pre grp s = Some d"
  using assms by (simp add: match_here_def)

lemma re_search_hit: "match_here pre grp s = Some g \<Longrightarrow> re_search pre grp s = Some g"
  by (cases s) auto

lemma timestamp_of_standings:
  assumes "date_shaped d"
  shows "timestamp_of (''Standings as of '' @ d @ rest) = d"
proof -
  have "match_here TIMESTAMP_PRE TIMESTAMP_GROUP (''Standings as of '' @ d @ rest) = Some d"
    by (rule match_here_single [OF timestamp_pre_standings timestamp_group_complete [OF assms]])
  from re_search_hit [OF this] show ?thesis by (simp add: timestamp_of_def)
qed

lemma timestamp_of_regional:
  assumes "date_shaped d" and "w \<noteq> []" and "list_all re_word w"
  shows "timestamp_of (''Regional Standings for '' @ w @ '' as of '' @ d @ rest) = d"
proof -
  have "match_here TIMESTAMP_PRE TIMESTAMP_GROUP
          (''Regional Standings for '' @ w @ '' as of '' @ d @ rest) = Some d"
    by (rule match_here_single [OF timestamp_pre_regional [OF assms(2,3)]
          timestamp_group_complete [OF assms(1)]])
  from re_search_hit [OF this] show ?thesis by (simp add: timestamp_of_def)
qed

lemma timestamp_of_cases:
  "timestamp_of line = ''Unknown'' \<or> (\<exists>p m q. line = p @ m @ q \<and> stamp_phrase m (timestamp_of line))"
proof (cases "re_search TIMESTAMP_PRE TIMESTAMP_GROUP line")
  case None
  then show ?thesis by (simp add: timestamp_of_def)
next
  case (Some g)
  from timestamp_search_sound [OF Some] Some show ?thesis
    by (simp add: timestamp_of_def)
qed

lemma re_search_append:
  "match_here pre grp s = Some d \<Longrightarrow> \<exists>g. re_search pre grp (p @ s) = Some g"
proof (induction p)
  case Nil
  from re_search_hit [OF Nil] show ?case by auto
next
  case (Cons c p)
  from Cons.IH [OF Cons.prems] obtain g where "re_search pre grp (p @ s) = Some g" by blast
  then show ?case by (cases "match_here pre grp (c # p @ s)") auto
qed

lemma stamp_phrase_match_here:
  assumes "stamp_phrase m d"
  shows "match_here TIMESTAMP_PRE TIMESTAMP_GROUP (m @ q) = Some d"
proof -
  from assms have d: "date_shaped d"
    and m: "m = ''Standings as of '' @ d \<or>
       (\<exists>w. w \<noteq> [] \<and> list_all re_word w \<and> m = ''Regional Standings for '' @ w @ '' as of '' @ d)"
    by (simp_all add: stamp_phrase_def)
  from m show ?thesis
  proof
    assume "m = ''Standings as of '' @ d"
    then have e: "m @ q = ''Standings as of '' @ d @ q" by simp
    show ?thesis unfolding e
      by (rule match_here_single [OF timestamp_pre_standings timestamp_group_complete [OF d]])
  next
    assume "\<exists>w. w \<noteq> [] \<and> list_all re_word w \<and> m = ''Regional Standings for '' @ w @ '' as of '' @ d"
    then obtain w where w: "w \<noteq> []" "list_all re_word w"
      and "m = ''Regional Standings for '' @ w @ '' as of '' @ d" by blast
    then have e: "m @ q = ''Regional Standings for '' @ w @ '' as of '' @ d @ q" by simp
    show ?thesis unfolding e
      by (rule match_here_single [OF timestamp_pre_regional [OF w] timestamp_group_complete [OF d]])
  qed
qed

lemma Unknown_not_date: "\<not> date_shaped ''Unknown''"
  by (simp add: date_shaped_def)

lemma timestamp_of_Unknown_iff:
  "timestamp_of line = ''Unknown'' \<longleftrightarrow> \<not> (\<exists>p m q d. line = p @ m @ q \<and> stamp_phrase m d)"
proof
  assume u: "timestamp_of line = ''Unknown''"
  show "\<not> (\<exists>p m q d. line = p @ m @ q \<and> stamp_phrase m d)"
  proof
    assume "\<exists>p m q d. line = p @ m @ q \<and> stamp_phrase m d"
    then obtain p m q d where line: "line = p @ m @ q" and sp: "stamp_phrase m d" by blast
    from re_search_append [OF stamp_phrase_match_here [OF sp], of p q] line
    obtain g where g: "re_search TIMESTAMP_PRE TIMESTAMP_GROUP line = Some g" by auto
    from timestamp_search_sound [OF g] have "date_shaped g"
      by (auto simp: stamp_phrase_def)
    moreover from g u have "g = ''Unknown''" by (simp add: timestamp_of_def)
    ultimately show False using Unknown_not_date by simp
  qed
next
  assume "\<not> (\<exists>p m q d. line = p @ m @ q \<and> stamp_phrase m d)"
  with timestamp_of_cases [of line] show "timestamp_of line = ''Unknown''" by blast
qed

lemma re_search_leftmost:
  "match_here pre grp s = Some d \<Longrightarrow>
   \<forall>k<length p. match_here pre grp (drop k (p @ s)) = None \<Longrightarrow>
   re_search pre grp (p @ s) = Some d"
proof (induction p)
  case Nil
  from re_search_hit [OF Nil(1)] show ?case by simp
next
  case (Cons c p)
  from Cons.prems(2) have "match_here pre grp (drop 0 ((c # p) @ s)) = None" by blast
  then have here: "match_here pre grp (c # p @ s) = None" by simp
  have "\<forall>k<length p. match_here pre grp (drop k (p @ s)) = None"
  proof (intro allI impI)
    fix k assume "k < length p"
    then have "Suc k < length (c # p)" by simp
    with Cons.prems(2) have "match_here pre grp (drop (Suc k) ((c # p) @ s)) = None" by blast
    then show "match_here pre grp (drop k (p @ s)) = None" by simp
  qed
  from Cons.IH [OF Cons.prems(1) this] here show ?case by simp
qed

lemma timestamp_of_leftmost:
  assumes sp: "stamp_phrase m d"
    and least: "\<forall>p' m' q' d'. p @ m @ q = p' @ m' @ q' \<and> stamp_phrase m' d' \<longrightarrow> length p \<le> length p'"
  shows "timestamp_of (p @ m @ q) = d"
proof -
  have "\<forall>k<length p. match_here TIMESTAMP_PRE TIMESTAMP_GROUP (drop k (p @ m @ q)) = None"
  proof (intro allI impI)
    fix k assume k: "k < length p"
    show "match_here TIMESTAMP_PRE TIMESTAMP_GROUP (drop k (p @ m @ q)) = None"
    proof (rule ccontr)
      assume "match_here TIMESTAMP_PRE TIMESTAMP_GROUP (drop k (p @ m @ q)) \<noteq> None"
      then obtain g where "match_here TIMESTAMP_PRE TIMESTAMP_GROUP (drop k (p @ m @ q)) = Some g"
        by auto
      from match_here_sound [OF this] obtain m' q' where
        dk: "drop k (p @ m @ q) = m' @ q'" and sp': "stamp_phrase m' g" by blast
      have "p @ m @ q = take k (p @ m @ q) @ m' @ q'"
        by (metis append_take_drop_id dk)
      with least sp' have "length p \<le> length (take k (p @ m @ q))" by blast
      with k show False by simp
    qed
  qed
  from re_search_leftmost [OF stamp_phrase_match_here [OF sp] this]
  show ?thesis by (simp add: timestamp_of_def)
qed

lemma parse_lines_first_line:
  assumes p: "parse_lines (l0 # rest) = Inr (df, ts)"
    and n: "\<not> startswith l0 HEADER_MARKER" and n': "\<not> startswith l0' HEADER_MARKER"
  shows "parse_lines (l0' # rest) = Inr (df, timestamp_of l0')"
proof -
  from parse_lines_Inr [OF p] obtain i data where
    i: "header_index (l0 # rest) = Some i"
    and ex: "extract_data (header_cells ((l0 # rest) ! i)) (drop (i + 2) (l0 # rest)) [] = Inr data"
    and df: "df = \<lparr>columns = header_cells ((l0 # rest) ! i), rows = data\<rparr>"
    and ne: "data \<noteq> []"
    by blast
  from i n have r: "header_index_from rest (Suc 0) = Some i"
    by (simp add: header_index_def)
  with n' have i': "header_index (l0' # rest) = Some i"
    by (simp add: header_index_def)
  from header_index_from_Some [OF r] have "Suc 0 \<le> i" by simp
  then obtain j where j: "i = Suc j" by (cases i) auto
  show ?thesis
    using ex ne unfolding parse_lines_Some [OF i'] df j by simp
qed

section \<open>The end-to-end scenario\<close>

text \<open>
  Claim C1. For the document of four lines of the end-to-end scenario (the line
  \<^verbatim>\<open>Standings as of 2024-01-10\<close>, the header with the columns Standing, Team, Points,
  Region and Details, a separator line and the one data row for Alpha), the parser
  returns the five column names, exactly one row whose last cell is the full address
  of \<^verbatim>\<open>standings/alpha.md\<close>, and the timestamp \<^verbatim>\<open>2024-01-10\<close>.
\<close>

theorem parse_end_to_end_scenario:
  "parse_markdown_table
     (''Standings as of 2024-01-10'' @ [CHR 0x0A] @
      ''| Standing | Team | Points | Region | Details |'' @ [CHR 0x0A] @
      ''|---|---|---|---|---|'' @ [CHR 0x0A] @
      ''| 1 | Alpha | 1000 | EU | Profile(standings/alpha.md) |'')
   = Inr (\<lparr>columns = [''Standing'', ''Team'', ''Points'', ''Region'', ''Details''],
           rows = [[''1'', ''Alpha'', ''1000'', ''EU'',
                    ''https://github.com/ValveSoftware/counter-strike_regional_standings/blob/main/standings/alpha.md'']]\<rparr>,
          ''2024-01-10'')"
  by code_simp

section \<open>Width of the rows\<close>

text \<open>
  Claim C3. Whenever the parser succeeds, every row of the table has exactly as many
  cells as there are column names. Moreover a line after the header and the separator
  whose cell count differs from the column count is dropped silently. The loop gives the
  same result, rows or exception, with the line as without it; so does the parser on any
  list of lines; and every text that has such a line parses to what the parser gives on
  its lines without that line. The line thus causes no failure and leaves no trace in the
  output.
\<close>

theorem row_width_invariant:
  "(parse_markdown_table md = Inr (df, ts) \<longrightarrow> (\<forall>r\<in>set (rows df). length r = length (columns df)))
   \<and> (length (cells line) \<noteq> length headers \<longrightarrow>
        extract_data headers (xs @ line # ys) data = extract_data headers (xs @ ys) data)
   \<and> (header_index pre = Some i \<and> Suc i < length pre
        \<and> length (cells line) \<noteq> length (cells (pre ! i)) \<longrightarrow>
        parse_lines (pre @ line # post) = parse_lines (pre @ post))
   \<and> (text_lines t1 = pre @ line # post \<and> header_index pre = Some i \<and> Suc i < length pre
        \<and> length (cells line) \<noteq> length (cells (pre ! i)) \<longrightarrow>
        parse_markdown_table t1 = parse_lines (pre @ post))"
proof (intro conjI impI)
  assume "parse_markdown_table md = Inr (df, ts)"
  then obtain i data where
    ex: "extract_data (header_cells (text_lines md ! i)) (drop (i + 2) (text_lines md)) [] = Inr data"
    and df: "df = \<lparr>columns = header_cells (text_lines md ! i), rows = data\<rparr>"
    using parse_lines_Inr [of "text_lines md" df ts]
    by (auto simp: parse_markdown_table_def)
  from extract_data_width [OF ex] show "\<forall>r\<in>set (rows df). length r = length (columns df)"
    by (simp add: df)
next
  assume "length (cells line) \<noteq> length headers"
  then have "\<not> kept headers line" by (simp add: kept_def)
  then show "extract_data headers (xs @ line # ys) data = extract_data headers (xs @ ys) data"
    by (rule extract_data_skip)
next
  assume "header_index pre = Some i \<and> Suc i < length pre
        \<and> length (cells line) \<noteq> length (cells (pre ! i))"
  then show "parse_lines (pre @ line # post) = parse_lines (pre @ post)"
    by (simp add: parse_skip_line)
next
  assume "text_lines t1 = pre @ line # post \<and> header_index pre = Some i \<and> Suc i < length pre
        \<and> length (cells line) \<noteq> length (cells (pre ! i))"
  then show "parse_markdown_table t1 = parse_lines (pre @ post)"
    by (simp add: parse_markdown_table_def parse_skip_line)
qed

text \<open>
  The invariant at work. The document with the line of four cells parses to the table of
  its other lines, whose one row has the width of the header. The document that ends
  with the line \<^verbatim>\<open>| bad\<close> after an empty line fails as its other lines do, for want of
  rows and not because of that line.
\<close>

theorem row_width_invariant_witness:
  "parse_markdown_table example_doc_wide_line =
       Inr (\<lparr>columns = [''Standing'', ''Team'', ''Details''],
              rows = [[''1'', ''Alpha'', URL_PREFIX @ ''standings/detail1.md'']]\<rparr>, ''2024-01-10'')
   \<and> length [''1'', ''Alpha'', URL_PREFIX @ ''standings/detail1.md''] =
       length [''Standing'', ''Team'', ''Details'']
   \<and> text_lines example_doc_bad_last = [''| Standing | Link |'', []] @ ''| bad'' # []
   \<and> parse_markdown_table example_doc_bad_last =
       Inl (ValueError ''No data rows found in the Markdown table.'')"
proof -
  let ?pre = "[''Standings as of 2024-01-10'', ''| Standing | Team | Link |'', ''|---|---|---|'']"
  let ?post = "[''| 1 | Alpha | View(standings/detail1.md) |'']"
  let ?df = "\<lparr>columns = [''Standing'', ''Team'', ''Details''],
              rows = [[''1'', ''Alpha'', URL_PREFIX @ ''standings/detail1.md'']]\<rparr>"
  have h1: "text_lines example_doc_wide_line = ?pre @ ''| 7 | too | many | cells |'' # ?post"
    by code_simp
  have h3: "header_index ?pre = Some 1" by code_simp
  have h4: "Suc 1 < length ?pre" by simp
  have h5: "length (cells ''| 7 | too | many | cells |'') \<noteq> length (cells (?pre ! 1))"
    by code_simp
  have p: "parse_lines (?pre @ ?post) = Inr (?df, ''2024-01-10'')"
    by code_simp
  have q: "parse_markdown_table example_doc_wide_line = Inr (?df, ''2024-01-10'')"
    by code_simp
  let ?pre2 = "[''| Standing | Link |'', []]"
  have g1: "text_lines example_doc_bad_last = ?pre2 @ ''| bad'' # []" by code_simp
  have g3: "header_index ?pre2 = Some 0" by code_simp
  have g4: "Suc 0 < length ?pre2" by simp
  have g5: "length (cells ''| bad'') \<noteq> length (cells (?pre2 ! 0))" by code_simp
  have r: "parse_lines (?pre2 @ []) = Inl (ValueError ''No data rows found in the Markdown table.'')"
    by code_simp
  note w1 = row_width_invariant [of example_doc_wide_line ?df "''2024-01-10''"
      "''| 7 | too | many | cells |''" _ _ _ _ ?pre 1 ?post example_doc_wide_line]
  note w2 = row_width_invariant [of _ _ _ "''| bad''" _ _ _ _ ?pre2 0 "[]" example_doc_bad_last]
  from w1 [THEN conjunct1, rule_format, OF q]
    w1 [THEN conjunct2, THEN conjunct2, THEN conjunct2, rule_format,
        OF conjI [OF h1 conjI [OF h3 conjI [OF h4 h5]]]]
    w2 [THEN conjunct2, THEN conjunct2, THEN conjunct2, rule_format,
        OF conjI [OF g1 conjI [OF g3 conjI [OF g4 g5]]]]
    p r g1
  show ?thesis by simp
qed

section \<open>The name of the last column\<close>

text \<open>
  Claim C4. Whenever the parser succeeds, the last of the returned column names is
  exactly \<^verbatim>\<open>Details\<close>, whatever the header line of the document called that column.
\<close>

theorem last_column_is_Details:
  assumes "parse_markdown_table md = Inr (df, ts)"
  shows "columns df \<noteq> [] \<and> last (columns df) = ''Details''"
proof -
  from assms obtain i where
    i: "header_index (text_lines md) = Some i"
    and df: "columns df = header_cells (text_lines md ! i)"
    using parse_lines_Inr [of "text_lines md" df ts]
    by (auto simp: parse_markdown_table_def)
  from header_index_Some(2) [OF i] have "cells (text_lines md ! i) \<noteq> []"
    by (rule cells_header_not_Nil)
  then show ?thesis
    by (simp add: df header_cells_def last_list_update)
qed

text \<open>The header of the example names its last column Link; the parser returns Details.\<close>

theorem last_column_is_Details_witness:
  "parse_markdown_table example_doc =
       Inr (\<lparr>columns = [''Standing'', ''Team'', ''Details''],
              rows = [[''1'', ''Alpha'', URL_PREFIX @ ''standings/detail1.md'']]\<rparr>, ''2024-01-10'')
   \<and> last [''Standing'', ''Team'', ''Details''] = ''Details''"
proof -
  have p: "parse_markdown_table example_doc =
       Inr (\<lparr>columns = [''Standing'', ''Team'', ''Details''],
              rows = [[''1'', ''Alpha'', URL_PREFIX @ ''standings/detail1.md'']]\<rparr>, ''2024-01-10'')"
    by code_simp
  from last_column_is_Details [OF p] p show ?thesis by simp
qed

section \<open>A missing header\<close>

text \<open>
  Claim C5, as amended. The parser strips the whole text before it splits it into lines.
  When no line of the stripped text begins with the marker \<^verbatim>\<open>| Standing |\<close>, the
  parser raises the \<^verbatim>\<open>ValueError\<close> for the missing header, and so returns no columns,
  rows or timestamp.
\<close>

theorem missing_header_fails:
  assumes "\<forall>l\<in>set (text_lines md). \<not> startswith l HEADER_MARKER"
  shows "parse_markdown_table md =
           Inl (ValueError ''Could not find the header row in the Markdown table.'')"
proof -
  from assms have "header_index (text_lines md) = None"
    by (simp add: header_index_def header_index_from_None)
  then show ?thesis
    by (simp add: parse_markdown_table_def parse_lines_None text_lines_not_Nil)
qed

text \<open>A document whose header line begins with \<^verbatim>\<open>| Rank |\<close> fails in this way.\<close>

theorem missing_header_fails_witness:
  "list_all (\<lambda>l. \<not> startswith l HEADER_MARKER) (text_lines example_doc_no_header)
   \<and> parse_markdown_table example_doc_no_header =
       Inl (ValueError ''Could not find the header row in the Markdown table.'')"
proof -
  have h: "list_all (\<lambda>l. \<not> startswith l HEADER_MARKER) (text_lines example_doc_no_header)"
    by code_simp
  then have "\<forall>l\<in>set (text_lines example_doc_no_header). \<not> startswith l HEADER_MARKER"
    by (simp add: list_all_iff)
  from missing_header_fails [OF this] h show ?thesis by simp
qed

text \<open>
  Claim C5 as first stated speaks of the lines of the input text. The document below has
  three lines, none of which begins with the marker, since the first begins with two
  spaces. Stripping the text removes them, the header is found, and the parser succeeds.
\<close>

theorem indented_header_counterexample:
  "py_split (CHR 0x0A) example_doc_indented = [''  | Standing | Link |'', ''|---|---|'', ''| 1 | View(a.md) |'']
   \<and> \<not> startswith ''  | Standing | Link |'' HEADER_MARKER
   \<and> \<not> startswith ''|---|---|'' HEADER_MARKER
   \<and> \<not> startswith ''| 1 | View(a.md) |'' HEADER_MARKER
   \<and> parse_markdown_table example_doc_indented =
       Inr (\<lparr>columns = [''Standing'', ''Details''], rows = [[''1'', URL_PREFIX @ ''a.md'']]\<rparr>, ''Unknown'')"
  by code_simp

section \<open>No data rows\<close>

text \<open>
  Claim C6. When the text has a header line and no line after the separator passes the
  test on the column count (there is none, or each one fails to start with a pipe or has
  another number of cells than the header), the parser raises the \<^verbatim>\<open>ValueError\<close> for
  missing data rows instead of returning an empty table.
\<close>

theorem zero_rows_fails:
  assumes "header_index (text_lines md) = Some i"
    and "\<forall>l\<in>set (drop (i + 2) (text_lines md)).
           \<not> (startswith l ''|'' \<and> length (cells l) = length (cells (text_lines md ! i)))"
  shows "parse_markdown_table md =
           Inl (ValueError ''No data rows found in the Markdown table.'')"
proof -
  from assms(2)
  have "\<forall>l\<in>set (drop (i + 2) (text_lines md)). \<not> kept (header_cells (text_lines md ! i)) l"
    by (auto simp: kept_def length_header_cells)
  from extract_data_none_kept [OF this] show ?thesis
    by (simp add: parse_markdown_table_def parse_lines_Some [OF assms(1)])
qed

text \<open>
  The two candidate lines of the example, one too narrow and one without pipes, are both
  dropped.
\<close>

theorem zero_rows_fails_witness:
  "header_index (text_lines example_doc_no_rows) = Some 1
   \<and> drop (1 + 2) (text_lines example_doc_no_rows) = [''| 1 | Alpha |'', ''not a row'']
   \<and> parse_markdown_table example_doc_no_rows =
       Inl (ValueError ''No data rows found in the Markdown table.'')"
proof -
  have h1: "header_index (text_lines example_doc_no_rows) = Some 1" by code_simp
  have d: "drop (1 + 2) (text_lines example_doc_no_rows) = [''| 1 | Alpha |'', ''not a row'']"
    by code_simp
  have h2: "list_all (\<lambda>l. \<not> (startswith l ''|'' \<and>
               length (cells l) = length (cells (text_lines example_doc_no_rows ! 1))))
             (drop (1 + 2) (text_lines example_doc_no_rows))"
    by code_simp
  then have "\<forall>l\<in>set (drop (1 + 2) (text_lines example_doc_no_rows)).
           \<not> (startswith l ''|'' \<and> length (cells l) = length (cells (text_lines example_doc_no_rows ! 1)))"
    by (simp only: list_all_iff)
  from zero_rows_fails [OF h1 this] h1 d show ?thesis by simp
qed

section \<open>A row without an opening parenthesis\<close>

text \<open>
  Claim C9. When some line after the separator starts with a pipe and has as many cells
  as the header, and its last cell has no opening parenthesis, the parser raises for the
  whole document: the result is the \<^verbatim>\<open>ValueError\<close> of the substring search, no table
  is returned, and the rows taken before that line are lost with it.
\<close>

theorem missing_paren_fails_whole_parse:
  assumes "header_index (text_lines md) = Some i"
    and "line \<in> set (drop (i + 2) (text_lines md))"
    and "startswith line ''|''"
    and "length (cells line) = length (cells (text_lines md ! i))"
    and "CHR ''('' \<notin> set (last (cells line))"
  shows "parse_markdown_table md = Inl (ValueError ''substring not found'')"
proof -
  from header_index_Some(2) [OF assms(1)] have "cells (text_lines md ! i) \<noteq> []"
    by (rule cells_header_not_Nil)
  with assms(3,4) have k: "kept (header_cells (text_lines md ! i)) line"
    by (auto simp: kept_def length_header_cells)
  from extract_data_raises [OF assms(2) k assms(5)] show ?thesis
    by (simp add: parse_markdown_table_def parse_lines_Some [OF assms(1)])
qed

text \<open>
  In the example the first row is well formed and the second has no link; the parse
  fails as a whole.
\<close>

theorem missing_paren_fails_whole_parse_witness:
  "header_index (text_lines example_doc_no_paren) = Some 1
   \<and> ''| 2 | Beta | no link here |'' \<in> set (drop (1 + 2) (text_lines example_doc_no_paren))
   \<and> cells ''| 2 | Beta | no link here |'' = [''2'', ''Beta'', ''no link here'']
   \<and> parse_markdown_table example_doc_no_paren = Inl (ValueError ''substring not found'')"
proof -
  have h1: "header_index (text_lines example_doc_no_paren) = Some 1" by code_simp
  have h2: "''| 2 | Beta | no link here |'' \<in> set (drop (1 + 2) (text_lines example_doc_no_paren))"
    by code_simp
  have h3: "startswith ''| 2 | Beta | no link here |'' ''|''" by code_simp
  have h4: "length (cells ''| 2 | Beta | no link here |'') =
            length (cells (text_lines example_doc_no_paren ! 1))" by code_simp
  have h5: "CHR ''('' \<notin> set (last (cells ''| 2 | Beta | no link here |''))" by code_simp
  have c: "cells ''| 2 | Beta | no link here |'' = [''2'', ''Beta'', ''no link here'']" by code_simp
  from missing_paren_fails_whole_parse [OF h1 h2 h3 h4 h5] h1 h2 c show ?thesis by simp
qed

section \<open>The link in the last cell\<close>

text \<open>
  Claim C2, as amended. Every row the parser returns comes from a line of the text: its
  cells but the last are the cells of that line, and its last cell is the fixed prefix
  followed by the part of the original last cell after its first opening parenthesis and
  before its final character. When the original cell ends with a closing parenthesis,
  that part is the text strictly between the first opening and the last closing
  parenthesis. In particular the cell \<^verbatim>\<open>View(standings/detail1.md)\<close> becomes the full
  address of \<^verbatim>\<open>standings/detail1.md\<close>.
\<close>

theorem link_cell_rule:
  "(parse_markdown_table md = Inr (df, ts) \<and> r \<in> set (rows df) \<longrightarrow>
      (\<exists>line\<in>set (text_lines md). cells line \<noteq> [] \<and> butlast r = butlast (cells line)
           \<and> detail_url (last (cells line)) = Inr (last r)))
   \<and> (detail_url cell = Inr url \<longrightarrow>
        CHR ''('' \<in> set cell \<and>
        url = URL_PREFIX @ drop (Suc (length (takeWhile (\<lambda>c. c \<noteq> CHR ''('') cell))) (butlast cell))
   \<and> (CHR ''('' \<in> set cell \<and> last cell = CHR '')'' \<longrightarrow>
        detail_url cell = Inr (URL_PREFIX @ spec_between_parens cell))
   \<and> detail_url ''View(standings/detail1.md)'' =
        Inr ''https://github.com/ValveSoftware/counter-strike_regional_standings/blob/main/standings/detail1.md''"
proof (intro conjI impI)
  assume "parse_markdown_table md = Inr (df, ts) \<and> r \<in> set (rows df)"
  then show "\<exists>line\<in>set (text_lines md). cells line \<noteq> [] \<and> butlast r = butlast (cells line)
           \<and> detail_url (last (cells line)) = Inr (last r)"
    using parse_row_origin by blast
next
  assume "detail_url cell = Inr url"
  then show "CHR ''('' \<in> set cell"
    and "url = URL_PREFIX @ drop (Suc (length (takeWhile (\<lambda>c. c \<noteq> CHR ''('') cell))) (butlast cell)"
    by (rule detail_url_InrD)+
next
  assume a: "CHR ''('' \<in> set cell \<and> last cell = CHR '')''"
  then have "cell \<noteq> []" by auto
  with a show "detail_url cell = Inr (URL_PREFIX @ spec_between_parens cell)"
    by (simp add: detail_url_Inr spec_between_parens_closed)
next
  show "detail_url ''View(standings/detail1.md)'' =
        Inr ''https://github.com/ValveSoftware/counter-strike_regional_standings/blob/main/standings/detail1.md''"
    by code_simp
qed

text \<open>
  The row of the example document and the cell of the specification's example, on which
  the rule of the code and the wording of the specification agree.
\<close>

theorem link_cell_rule_witness:
  "parse_markdown_table example_doc =
       Inr (\<lparr>columns = [''Standing'', ''Team'', ''Details''],
              rows = [[''1'', ''Alpha'', URL_PREFIX @ ''standings/detail1.md'']]\<rparr>, ''2024-01-10'')
   \<and> (\<exists>line\<in>set (text_lines example_doc).
         detail_url (last (cells line)) = Inr (URL_PREFIX @ ''standings/detail1.md''))
   \<and> detail_url ''View(standings/detail1.md)'' =
       Inr (URL_PREFIX @ spec_between_parens ''View(standings/detail1.md)'')
   \<and> spec_between_parens ''View(standings/detail1.md)'' = ''standings/detail1.md''"
proof -
  let ?r = "[''1'', ''Alpha'', URL_PREFIX @ ''standings/detail1.md'']"
  let ?df = "\<lparr>columns = [''Standing'', ''Team'', ''Details''], rows = [?r]\<rparr>"
  have p: "parse_markdown_table example_doc = Inr (?df, ''2024-01-10'')"
    by code_simp
  have m: "?r \<in> set (rows ?df)" by simp
  have c: "CHR ''('' \<in> set ''View(standings/detail1.md)'' \<and> last ''View(standings/detail1.md)'' = CHR '')''"
    by simp
  have s: "spec_between_parens ''View(standings/detail1.md)'' = ''standings/detail1.md''"
    by code_simp
  note w = link_cell_rule [of example_doc ?df "''2024-01-10''" ?r "''View(standings/detail1.md)''"]
  from w [THEN conjunct1, rule_format, OF conjI [OF p m]]
    w [THEN conjunct2, THEN conjunct2, THEN conjunct1, rule_format, OF c] p s
  show ?thesis by auto
qed

text \<open>
  Claim C2 as first stated takes the text up to the last closing parenthesis. The cell
  \<^verbatim>\<open>View(a)b\<close> has text after it: the code drops only the final character and keeps
  the parenthesis, so the two differ.
\<close>

theorem trailing_text_link_counterexample:
  "parse_markdown_table example_doc_trailing =
       Inr (\<lparr>columns = [''Standing'', ''Details''], rows = [[''1'', URL_PREFIX @ ''a)'']]\<rparr>, ''Unknown'')
   \<and> cells ''| 1 | View(a)b |'' = [''1'', ''View(a)b'']
   \<and> spec_between_parens ''View(a)b'' = ''a''
   \<and> URL_PREFIX @ ''a)'' \<noteq> URL_PREFIX @ spec_between_parens ''View(a)b''"
  by code_simp

section \<open>The timestamp\<close>

text \<open>
  Claim C7, as amended. The parser strips the whole text before it splits it into lines,
  and the timestamp is computed from the first line of the stripped text alone. That line
  always exists, so the step cannot fail. A line that starts with one of the two phrases
  gives the date of the phrase; the two examples of the specification give
  \<^verbatim>\<open>2024-03-15\<close>. The timestamp is \<^verbatim>\<open>Unknown\<close> exactly when the line contains
  neither phrase anywhere, and otherwise it is the date of a phrase in the line. The
  first line has no other effect: replacing it by any other line that is not a header
  leaves the parse successful, with the same table and the timestamp of the new line.
  Where the line holds several phrases, the date is that of the phrase that starts
  first.
\<close>

theorem timestamp_extraction:
  "text_lines md \<noteq> []
   \<and> (parse_markdown_table md = Inr (df, ts) \<longrightarrow> ts = timestamp_of (hd (text_lines md)))
   \<and> (date_shaped d \<longrightarrow> timestamp_of (''Standings as of '' @ d @ rest) = d)
   \<and> (date_shaped d \<and> w \<noteq> [] \<and> list_all re_word w \<longrightarrow>
        timestamp_of (''Regional Standings for '' @ w @ '' as of '' @ d @ rest) = d)
   \<and> timestamp_of ''Standings as of 2024-03-15'' = ''2024-03-15''
   \<and> timestamp_of ''Regional Standings for Europe as of 2024-03-15'' = ''2024-03-15''
   \<and> (timestamp_of line = ''Unknown'') = (\<not> (\<exists>p m q e. line = p @ m @ q \<and> stamp_phrase m e))
   \<and> (timestamp_of line = ''Unknown'' \<or>
        (\<exists>p m q. line = p @ m @ q \<and> stamp_phrase m (timestamp_of line)))
   \<and> (text_lines md1 = l1 # ls \<and> text_lines md2 = l2 # ls
        \<and> \<not> startswith l1 HEADER_MARKER \<and> \<not> startswith l2 HEADER_MARKER
        \<and> parse_markdown_table md1 = Inr (df1, ts1) \<longrightarrow>
        parse_markdown_table md2 = Inr (df1, timestamp_of l2))
   \<and> (stamp_phrase phrase date
        \<and> (\<forall>p' m' q' d'. before @ phrase @ after = p' @ m' @ q' \<and> stamp_phrase m' d'
              \<longrightarrow> length before \<le> length p') \<longrightarrow>
        timestamp_of (before @ phrase @ after) = date)"
proof (intro conjI impI)
  show "text_lines md \<noteq> []" by (rule text_lines_not_Nil)
next
  assume "parse_markdown_table md = Inr (df, ts)"
  then show "ts = timestamp_of (hd (text_lines md))"
    using parse_lines_Inr [of "text_lines md" df ts]
    by (auto simp: parse_markdown_table_def)
next
  assume "date_shaped d"
  then show "timestamp_of (''Standings as of '' @ d @ rest) = d"
    by (rule timestamp_of_standings)
next
  assume "date_shaped d \<and> w \<noteq> [] \<and> list_all re_word w"
  then have "date_shaped d" and "w \<noteq> []" and "list_all re_word w" by simp_all
  then show "timestamp_of (''Regional Standings for '' @ w @ '' as of '' @ d @ rest) = d"
    by (rule timestamp_of_regional)
next
  show "timestamp_of ''Standings as of 2024-03-15'' = ''2024-03-15''" by code_simp
next
  show "timestamp_of ''Regional Standings for Europe as of 2024-03-15'' = ''2024-03-15''"
    by code_simp
next
  show "(timestamp_of line = ''Unknown'') = (\<not> (\<exists>p m q e. line = p @ m @ q \<and> stamp_phrase m e))"
    by (rule timestamp_of_Unknown_iff)
next
  show "timestamp_of line = ''Unknown'' \<or>
        (\<exists>p m q. line = p @ m @ q \<and> stamp_phrase m (timestamp_of line))"
    by (rule timestamp_of_cases)
next
  assume "text_lines md1 = l1 # ls \<and> text_lines md2 = l2 # ls
        \<and> \<not> startswith l1 HEADER_MARKER \<and> \<not> startswith l2 HEADER_MARKER
        \<and> parse_markdown_table md1 = Inr (df1, ts1)"
  then have p1: "parse_lines (l1 # ls) = Inr (df1, ts1)" and n1: "\<not> startswith l1 HEADER_MARKER"
    and n2: "\<not> startswith l2 HEADER_MARKER" and m2: "text_lines md2 = l2 # ls"
    by (auto simp: parse_markdown_table_def)
  from p1 n1 n2 have "parse_lines (l2 # ls) = Inr (df1, timestamp_of l2)"
    by (rule parse_lines_first_line)
  then show "parse_markdown_table md2 = Inr (df1, timestamp_of l2)"
    by (simp add: parse_markdown_table_def m2)
next
  assume a: "stamp_phrase phrase date
        \<and> (\<forall>p' m' q' d'. before @ phrase @ after = p' @ m' @ q' \<and> stamp_phrase m' d'
              \<longrightarrow> length before \<le> length p')"
  then have sp: "stamp_phrase phrase date"
    and least: "\<forall>p' m' q' d'. before @ phrase @ after = p' @ m' @ q' \<and> stamp_phrase m' d'
              \<longrightarrow> length before \<le> length p'"
    by blast+
  from sp least show "timestamp_of (before @ phrase @ after) = date"
    by (rule timestamp_of_leftmost)
qed

text \<open>
  Both phrases give their date, and the example document still parses, with the
  timestamp \<^verbatim>\<open>Unknown\<close>, when its first line is replaced by one without a date. In a
  heading that holds two phrases after the marks \<^verbatim>\<open>## \<close>, the first phrase gives the
  date.
\<close>

theorem timestamp_extraction_witness:
  "timestamp_of (''Standings as of '' @ ''2024-03-15'' @ '' (weekly)'') = ''2024-03-15''
   \<and> timestamp_of (''Regional Standings for '' @ ''Europe'' @ '' as of '' @ ''2024-03-15'' @ []) = ''2024-03-15''
   \<and> timestamp_of ''Latest standings'' = ''Unknown''
   \<and> parse_markdown_table example_doc_untitled =
       Inr (\<lparr>columns = [''Standing'', ''Team'', ''Details''],
              rows = [[''1'', ''Alpha'', URL_PREFIX @ ''standings/detail1.md'']]\<rparr>, ''Unknown'')
   \<and> timestamp_of (''## '' @ ''Standings as of 2024-03-15'' @ '', Standings as of 2023-12-31'')
       = ''2024-03-15''"
proof -
  let ?df = "\<lparr>columns = [''Standing'', ''Team'', ''Details''],
              rows = [[''1'', ''Alpha'', URL_PREFIX @ ''standings/detail1.md'']]\<rparr>"
  let ?ls = "[''| Standing | Team | Link |'', ''|---|---|---|'',
              ''| 1 | Alpha | View(standings/detail1.md) |'']"
  let ?L = "''## '' @ ''Standings as of 2024-03-15'' @ '', Standings as of 2023-12-31''"
  have d: "date_shaped ''2024-03-15''" by code_simp
  have w: "date_shaped ''2024-03-15'' \<and> ''Europe'' \<noteq> [] \<and> list_all re_word ''Europe''"
    by code_simp
  have u: "timestamp_of ''Latest standings'' = ''Unknown''" by code_simp
  have h: "text_lines example_doc = ''Standings as of 2024-01-10'' # ?ls
        \<and> text_lines example_doc_untitled = ''Latest standings'' # ?ls
        \<and> \<not> startswith ''Standings as of 2024-01-10'' HEADER_MARKER
        \<and> \<not> startswith ''Latest standings'' HEADER_MARKER
        \<and> parse_markdown_table example_doc = Inr (?df, ''2024-01-10'')"
    by code_simp
  have sp: "stamp_phrase ''Standings as of 2024-03-15'' ''2024-03-15''"
    using d by (simp add: stamp_phrase_def)
  have n0: "match_here TIMESTAMP_PRE TIMESTAMP_GROUP (drop 0 ?L) = None" by code_simp
  have n1: "match_here TIMESTAMP_PRE TIMESTAMP_GROUP (drop 1 ?L) = None" by code_simp
  have n2: "match_here TIMESTAMP_PRE TIMESTAMP_GROUP (drop 2 ?L) = None" by code_simp
  have least: "\<forall>p' m' q' d'. ?L = p' @ m' @ q' \<and> stamp_phrase m' d' \<longrightarrow> length ''## '' \<le> length p'"
  proof (intro allI impI)
    fix p' m' q' d'
    assume a: "?L = p' @ m' @ q' \<and> stamp_phrase m' d'"
    then have "match_here TIMESTAMP_PRE TIMESTAMP_GROUP (m' @ q') = Some d'"
      by (simp add: stamp_phrase_match_here)
    moreover from a have "drop (length p') ?L = m' @ q'"
      by (metis append_eq_conv_conj)
    ultimately have m: "match_here TIMESTAMP_PRE TIMESTAMP_GROUP (drop (length p') ?L) = Some d'"
      by simp
    show "length ''## '' \<le> length p'"
    proof (rule ccontr)
      assume "\<not> length ''## '' \<le> length p'"
      then have "length p' < 3" by simp
      then have "length p' = 0 \<or> length p' = 1 \<or> length p' = 2" by arith
      with m n0 n1 n2 show False by (elim disjE) simp_all
    qed
  qed
  note t = timestamp_extraction [of example_doc ?df "''2024-01-10''" "''2024-03-15''" _ "''Europe''" _
      example_doc "''Standings as of 2024-01-10''" ?ls example_doc_untitled "''Latest standings''"
      ?df "''2024-01-10''" "''Standings as of 2024-03-15''" "''2024-03-15''" "''## ''"
      "'', Standings as of 2023-12-31''"]
  note c = t [THEN conjunct2, THEN conjunct2]
  note e = c [THEN conjunct2, THEN conjunct2, THEN conjunct2, THEN conjunct2, THEN conjunct2, THEN conjunct2]
  from c [THEN conjunct1, rule_format, OF d, of "'' (weekly)''"]
    c [THEN conjunct2, THEN conjunct1, rule_format, OF w, of "[]"]
    e [THEN conjunct1, rule_format, OF h]
    e [THEN conjunct2, rule_format, OF conjI [OF sp least]]
    u
  show ?thesis by simp
qed

text \<open>
  Claim C7 as first stated speaks of the first line of the input text. The first line of
  the document below is empty and holds neither phrase, so the claim gives
  \<^verbatim>\<open>Unknown\<close>. Stripping the text removes the empty line, the dated line becomes the
  first, and the parser returns its date.
\<close>

theorem blank_first_line_counterexample:
  "py_split (CHR 0x0A) example_doc_blank_first =
       [[], ''Standings as of 2024-03-15'', ''| Standing | Link |'', ''|---|---|'', ''| 1 | V(a) |'']
   \<and> timestamp_of [] = ''Unknown''
   \<and> parse_markdown_table example_doc_blank_first =
       Inr (\<lparr>columns = [''Standing'', ''Details''], rows = [[''1'', URL_PREFIX @ ''a'']]\<rparr>, ''2024-03-15'')
   \<and> ''2024-03-15'' \<noteq> ''Unknown''"
  by code_simp

section \<open>An empty response body\<close>

text \<open>
  Claim C10. When the fetch succeeds with status 200 and an empty body, the empty text is
  returned and tested for truth by the display: nothing at all is shown for the tab, no
  table, no error and no diagnostics. The display itself does the same as for a failed
  fetch, where only the fetch has reported its error. No parse is attempted; had the
  empty text been parsed, the missing header would have been reported.
\<close>

theorem empty_body_shows_nothing:
  "(map_of LEADERBOARD_URLS leaderboard_name = Some url \<and> status_code (http url) = 200
      \<and> resp_text (http url) = [] \<longrightarrow>
      fetch_leaderboard_data url (http url) = (Some [], [])
      \<and> display_leaderboard raises leaderboard_name http last_updated = Inr [])
   \<and> (map_of LEADERBOARD_URLS leaderboard_name = Some url \<and> status_code (http url) \<noteq> 200 \<longrightarrow>
      display_leaderboard raises leaderboard_name http last_updated =
        Inr ([St_error (''Failed to fetch data from '' @ url)] @ render raises None last_updated))
   \<and> render raises (Some []) last_updated = render raises None last_updated
   \<and> render raises (Some []) last_updated = []
   \<and> parse_markdown_table [] =
        Inl (ValueError ''Could not find the header row in the Markdown table.'')"
proof (intro conjI impI)
  show "parse_markdown_table [] =
        Inl (ValueError ''Could not find the header row in the Markdown table.'')"
    by code_simp
qed (auto simp: display_leaderboard_def fetch_leaderboard_data_def render_def)

text \<open>The Global tab with an empty body of status 200 shows nothing.\<close>

theorem empty_body_shows_nothing_witness:
  "map_of LEADERBOARD_URLS ''Global'' =
     Some ''https://raw.githubusercontent.com/ValveSoftware/counter-strike_regional_standings/main/standings_global.md''
   \<and> display_leaderboard (\<lambda>c. None) ''Global'' (\<lambda>u. \<lparr>status_code = 200, resp_text = []\<rparr>)
        ''2024-01-10 12:00:00 PST'' = Inr []"
proof -
  let ?url = "''https://raw.githubusercontent.com/ValveSoftware/counter-strike_regional_standings/main/standings_global.md''"
  let ?http = "\<lambda>u::string. \<lparr>status_code = 200, resp_text = []\<rparr>"
  have k: "map_of LEADERBOARD_URLS ''Global'' = Some ?url"
    by (simp add: LEADERBOARD_URLS_def)
  have h: "map_of LEADERBOARD_URLS ''Global'' = Some ?url \<and> status_code (?http ?url) = 200
      \<and> resp_text (?http ?url) = []"
    using k by simp
  from empty_body_shows_nothing [of "''Global''" ?url ?http "\<lambda>c. None" "''2024-01-10 12:00:00 PST''",
      THEN conjunct1, rule_format, OF h] k
  show ?thesis by simp
qed

end
